theory Spec2Isabelle
  imports Complex_Main
begin

section \<open>Numbers\<close>

text \<open>
  The program computes with JavaScript numbers. They are modelled as real numbers with
  exact arithmetic; the one non-numeric value the judgment can meet, \<open>NaN\<close> (from
  \<open>a % 0\<close>), is modelled as \<open>None\<close>. Rounding of IEEE doubles is outside the model.
\<close>

definition js_trunc :: "real \<Rightarrow> int" where
  "js_trunc r = (if 0 \<le> r then \<lfloor>r\<rfloor> else \<lceil>r\<rceil>)"

text \<open>JavaScript's \<open>a % b\<close>: the remainder of the division truncated toward zero.\<close>

definition js_rem :: "real \<Rightarrow> real \<Rightarrow> real option" where
  "js_rem a b = (if b = 0 then None else Some (a - b * of_int (js_trunc (a / b))))"

text \<open>\<open>v < c\<close> for a number-or-NaN \<open>v\<close>: every comparison with \<open>NaN\<close> is false.\<close>

fun js_less :: "real option \<Rightarrow> real \<Rightarrow> bool" where
  "js_less None c = False"
| "js_less (Some v) c = (v < c)"

section \<open>types.ts\<close>

datatype GameState = MENU | PLAYING | GAMEOVER

datatype BuildingResult = PERFECT | GOOD | MISS | NONE

datatype BuildingType = skyscraper | tower | block

text \<open>
  \<open>quality\<close> is \<open>'PERFECT' | 'GOOD' | 'MISS' | null\<close>: the strings are the values of
  \<open>BuildingResult\<close>, \<open>null\<close> is \<open>None\<close>. The optional \<open>hasMissed\<close> is only ever tested
  for truth, so an absent flag is \<open>False\<close>.
\<close>

record Building =
  id_b :: real
  type_b :: BuildingType
  height :: real
  color :: string
  z_b :: real
  x_b :: real
  isLocked :: bool
  quality :: "BuildingResult option"
  hasMissed :: bool

section \<open>AudioEngine\<close>

datatype CtxState = suspended | running

text \<open>
  The \<open>AudioEngine\<close> object together with the part of the host it acts on.
  \<open>ctx\<close> is the audio context (\<open>None\<close> is \<open>null\<close>) with its \<open>state\<close>; \<open>clock\<close> is
  \<open>ctx.currentTime\<close>. \<open>masterGain\<close> is assigned by \<open>init\<close> together with \<open>ctx\<close> and never
  cleared, so the guard \<open>!this.ctx || !this.masterGain\<close> is \<open>ctx = None\<close>.
  The program never closes its context, so the states are suspended and running.
  \<open>beatCallback\<close> records whether a callback is registered. The host side:
  \<open>timers\<close> are the armed \<open>setTimeout\<close> handles (each will call \<open>scheduler\<close>),
  \<open>nextHandle\<close> the next handle \<open>setTimeout\<close> returns, \<open>noteLog\<close> the calls of
  \<open>scheduleNote\<close> that passed its guard, \<open>beatLog\<close> the invocations of the callback.
\<close>

record AudioEngine =
  ctx :: "CtxState option"
  clock :: real
  nextNoteTime :: real
  current16thNote :: nat
  timerID :: "nat option"
  beatCallback :: bool
  timers :: "nat list"
  nextHandle :: nat
  noteLog :: "(nat \<times> real) list"
  beatLog :: "(real \<times> nat) list"

definition bpm :: real where
  "bpm = 115"

definition lookahead :: real where
  "lookahead = 25"

definition scheduleAheadTime :: real where
  "scheduleAheadTime = 0.1"

text \<open>
  What the host's audio device does when asked: \<open>new AudioContext()\<close> throws, or gives a
  context that is suspended or running; \<open>ctx.resume()\<close> resolves (the context is then
  running), rejects, or stays pending.
\<close>

datatype Creation = CreateThrows | CreateSuspended | CreateRunning

datatype Resume = ResumeResolves | ResumeRejects | ResumePending

record Device =
  create :: Creation
  resume :: Resume

text \<open>How an \<open>async\<close> call ends: its promise resolves, rejects, or never settles.\<close>

datatype Outcome = Resolved | Rejected | Pending

definition newEngine :: AudioEngine where
  "newEngine = \<lparr>ctx = None, clock = 0, nextNoteTime = 0, current16thNote = 0,
     timerID = None, beatCallback = False, timers = [], nextHandle = 0,
     noteLog = [], beatLog = []\<rparr>"

text \<open>\<open>init\<close>; \<open>None\<close> when the constructor throws.\<close>

definition init :: "Device \<Rightarrow> AudioEngine \<Rightarrow> AudioEngine option" where
  "init d e =
     (if ctx e \<noteq> None then Some e
      else case create d of
             CreateThrows \<Rightarrow> None
           | CreateSuspended \<Rightarrow> Some (e\<lparr>ctx := Some suspended\<rparr>)
           | CreateRunning \<Rightarrow> Some (e\<lparr>ctx := Some running\<rparr>))"


definition getCurrentTime :: "AudioEngine \<Rightarrow> real" where
  "getCurrentTime e = (if ctx e \<noteq> None then clock e else 0)"

definition getBPM :: "AudioEngine \<Rightarrow> real" where
  "getBPM e = bpm"

definition isRunning :: "AudioEngine \<Rightarrow> bool" where
  "isRunning e = (ctx e = Some running)"

definition scheduleNote :: "nat \<Rightarrow> real \<Rightarrow> AudioEngine \<Rightarrow> AudioEngine" where
  "scheduleNote beatNumber time e =
     (if ctx e = None then e
      else
        let e1 = (if beatNumber mod 4 = 0 \<and> beatCallback e
                  then e\<lparr>beatLog := beatLog e @ [(time, beatNumber)]\<rparr> else e)
        in e1\<lparr>noteLog := noteLog e1 @ [(beatNumber, time)]\<rparr>)"

definition nextNote :: "AudioEngine \<Rightarrow> AudioEngine" where
  "nextNote e =
     (let secondsPerBeat = 60 / bpm;
          n = current16thNote e + 1
      in e\<lparr>nextNoteTime := nextNoteTime e + 0.25 * secondsPerBeat,
            current16thNote := (if n = 16 then 0 else n)\<rparr>)"

text \<open>
  The \<open>while\<close> loop of \<open>scheduler\<close>; \<open>limit\<close> is
  \<open>ctx.currentTime + scheduleAheadTime\<close>, which does not change while the loop runs.
\<close>

function schedulerLoop :: "real \<Rightarrow> AudioEngine \<Rightarrow> AudioEngine" where
  "schedulerLoop limit e =
     (if nextNoteTime e < limit
      then schedulerLoop limit (nextNote (scheduleNote (current16thNote e) (nextNoteTime e) e))
      else e)"
  by pat_completeness auto

termination schedulerLoop
proof (relation "measure (\<lambda>(limit, e). nat \<lceil>(limit - nextNoteTime e) * (23 / 3)\<rceil>)")
  show "wf (measure (\<lambda>(limit, e). nat \<lceil>(limit - nextNoteTime e) * (23 / 3)\<rceil>))"
    by simp
next
  fix limit :: real and e :: AudioEngine
  assume less: "nextNoteTime e < limit"
  have later: "nextNoteTime (nextNote (scheduleNote (current16thNote e) (nextNoteTime e) e))
      = nextNoteTime e + 3 / 23"
    by (simp add: nextNote_def scheduleNote_def bpm_def Let_def)
  have "(limit - (nextNoteTime e + 3 / 23)) * (23 / 3) = (limit - nextNoteTime e) * (23 / 3) - 1"
    by (simp add: algebra_simps)
  then have step: "\<lceil>(limit - (nextNoteTime e + 3 / 23)) * (23 / 3)\<rceil>
      = \<lceil>(limit - nextNoteTime e) * (23 / 3)\<rceil> - 1"
    by (simp only: ceiling_diff_one)
  from less have "0 < (limit - nextNoteTime e) * (23 / 3)"
    by simp
  then have "0 < \<lceil>(limit - nextNoteTime e) * (23 / 3)\<rceil>"
    by (simp only: zero_less_ceiling)
  with step show "((limit, nextNote (scheduleNote (current16thNote e) (nextNoteTime e) e)), limit, e)
      \<in> measure (\<lambda>(limit, e). nat \<lceil>(limit - nextNoteTime e) * (23 / 3)\<rceil>)"
    by (simp add: later)
qed

declare schedulerLoop.simps [simp del]

text \<open>
  \<open>scheduler\<close>: the catch-up loop, then \<open>setTimeout\<close> arms a new timer and its handle
  overwrites \<open>timerID\<close>; a timer armed earlier is not cleared here.
\<close>

definition scheduler :: "AudioEngine \<Rightarrow> AudioEngine" where
  "scheduler e =
     (if ctx e = None then e
      else
        let e1 = schedulerLoop (clock e + scheduleAheadTime) e
        in e1\<lparr>timerID := Some (nextHandle e1),
               timers := timers e1 @ [nextHandle e1],
               nextHandle := nextHandle e1 + 1\<rparr>)"

text \<open>
  \<open>start\<close> is \<open>async\<close>: the engine it leaves and how its promise ends. A constructor
  that throws, or a \<open>resume\<close> that rejects or stays pending, ends the call before the
  step counter is reset and the scheduler armed.
\<close>

definition start :: "Device \<Rightarrow> AudioEngine \<Rightarrow> AudioEngine \<times> Outcome" where
  "start d e =
     (case (if ctx e = None then init d e else Some e) of
        None \<Rightarrow> (e, Rejected)
      | Some e1 \<Rightarrow>
          (let arm = (\<lambda>e2. scheduler (e2\<lparr>current16thNote := 0, nextNoteTime := clock e2 + 0.1\<rparr>))
           in if ctx e1 = Some suspended then
                (case resume d of
                   ResumeResolves \<Rightarrow> (arm (e1\<lparr>ctx := Some running\<rparr>), Resolved)
                 | ResumeRejects \<Rightarrow> (e1, Rejected)
                 | ResumePending \<Rightarrow> (e1, Pending))
              else (arm e1, Resolved)))"

text \<open>\<open>stop\<close>: \<open>clearTimeout\<close> on the recorded handle only, then the context is suspended.\<close>

definition stop :: "AudioEngine \<Rightarrow> AudioEngine" where
  "stop e =
     (let e1 = (case timerID e of
                  None \<Rightarrow> e
                | Some t \<Rightarrow> e\<lparr>timers := removeAll t (timers e), timerID := None\<rparr>)
      in if ctx e1 \<noteq> None then e1\<lparr>ctx := Some suspended\<rparr> else e1)"






text \<open>The device starts every context running and resumes every suspended one.\<close>

definition goodDevice :: Device where
  "goodDevice = \<lparr>create = CreateRunning, resume = ResumeResolves\<rparr>"

section \<open>App\<close>

text \<open>
  The state of the component. \<open>score\<close>, \<open>combo\<close> and \<open>health\<close> are the current values of
  the three state hooks; the handlers change them by functional updates, which read the
  current value. \<open>capturedCombo\<close> is the \<open>combo\<close> that the closure of
  \<open>handleScoreUpdate\<close> holds: \<open>useCallback\<close> with the dependencies \<open>[combo]\<close> rebuilds
  the handler at a render, so between a change of the combo and the next render the
  handler still reads the combo of the last render.
\<close>

record App =
  gameState :: GameState
  score :: int
  combo :: int
  health :: int
  audioEngine :: "AudioEngine option"
  capturedCombo :: int

definition handleScoreUpdate :: "real \<Rightarrow> BuildingResult \<Rightarrow> App \<Rightarrow> App" where
  "handleScoreUpdate points result a =
     (if result = MISS then
        a\<lparr>combo := 0, health := max 0 (health a - 15)\<rparr>
      else
        let multiplier = 1 + of_int \<lfloor>of_int (capturedCombo a) / (5::real)\<rfloor> * (0.5::real) in
        a\<lparr>score := score a + \<lfloor>points * multiplier\<rfloor>,
          combo := combo a + 1,
          health := (if result = PERFECT then min 100 (health a + 5) else health a)\<rparr>)"

definition handlePassiveMiss :: "App \<Rightarrow> App" where
  "handlePassiveMiss a = a\<lparr>combo := 0, health := max 0 (health a - 10)\<rparr>"


text \<open>
  \<open>startGame\<close>: the three resets come before the \<open>await\<close>; \<open>setGameState\<close> comes
  after it and runs only when the promise of \<open>start\<close> resolves.
\<close>

definition startGame :: "Device \<Rightarrow> App \<Rightarrow> App" where
  "startGame d a =
     (case audioEngine a of
        None \<Rightarrow> a
      | Some e \<Rightarrow>
          (let a1 = a\<lparr>score := 0, combo := 0, health := 100\<rparr>;
               (e', out) = start d e
           in case out of
                Resolved \<Rightarrow> a1\<lparr>audioEngine := Some e', gameState := PLAYING\<rparr>
              | Rejected \<Rightarrow> a1\<lparr>audioEngine := Some e'\<rparr>
              | Pending \<Rightarrow> a1\<lparr>audioEngine := Some e'\<rparr>))"

definition handleGameOver :: "App \<Rightarrow> App" where
  "handleGameOver a = a\<lparr>audioEngine := map_option stop (audioEngine a), gameState := GAMEOVER\<rparr>"

text \<open>
  The effect on \<open>[health, gameState]\<close> that ends the game; its call of \<open>setIntensity\<close>
  moves a filter of the audio graph only and is left out.
\<close>

definition healthEffect :: "App \<Rightarrow> App" where
  "healthEffect a = (if health a \<le> 0 \<and> gameState a = PLAYING then handleGameOver a else a)"

text \<open>
  A render of the component: \<open>handleScoreUpdate\<close> is rebuilt with the current combo, and
  the effects run.
\<close>

definition rerender :: "App \<Rightarrow> App" where
  "rerender a = healthEffect (a\<lparr>capturedCombo := combo a\<rparr>)"

definition newApp :: App where
  "newApp = \<lparr>gameState = MENU, score = 0, combo = 0, health = 100,
     audioEngine = Some newEngine, capturedCombo = 0\<rparr>"

text \<open>
  The events of the controller: the three callbacks it hands out, and its renders. A
  callback can run again before the render that follows an earlier one.
\<close>

datatype AppEvent = Judged real BuildingResult | PassiveMiss | StartGame Device | Rerender

fun appStep :: "App \<Rightarrow> AppEvent \<Rightarrow> App" where
  "appStep a (Judged points result) = handleScoreUpdate points result a"
| "appStep a PassiveMiss = handlePassiveMiss a"
| "appStep a (StartGame d) = startGame d a"
| "appStep a Rerender = rerender a"

definition appRun :: "App \<Rightarrow> AppEvent list \<Rightarrow> App" where
  "appRun a evs = foldl appStep a evs"

section \<open>GameCanvas\<close>

record Feedback =
  text_fb :: string
  color_fb :: string
  alpha_fb :: real
  y_fb :: real

text \<open>The refs of the component that the game logic reads and writes.\<close>

record GameCanvas =
  buildings :: "Building list"
  lastTime :: real
  beatDuration :: real
  feedback :: "Feedback option"
  shake :: real

definition BUILD_LINE_Z :: real where
  "BUILD_LINE_Z = 200"

definition buildingActive :: string where
  "buildingActive = ''#06b6d4''"

definition buildingLocked :: string where
  "buildingLocked = ''#c026d3''"

text \<open>The canvas after mount: the effect has set \<open>beatDuration\<close> to \<open>60 / getBPM()\<close>.\<close>

definition newCanvas :: GameCanvas where
  "newCanvas = \<lparr>buildings = [], lastTime = 0, beatDuration = 60 / bpm,
     feedback = None, shake = 0\<rparr>"

subsection \<open>handleInput\<close>

text \<open>
  The target: the unlocked buildings, sorted (stably) by distance to the build line, first
  one. The source then writes to that object, which is still an element of the array, so
  the model returns its index.
\<close>

definition selectTarget :: "Building list \<Rightarrow> nat option" where
  "selectTarget bs =
     (case sort_key (\<lambda>(i, b). \<bar>z_b b - BUILD_LINE_Z\<bar>)
             (filter (\<lambda>(i, b). \<not> isLocked b) (enumerate 0 bs)) of
        [] \<Rightarrow> None
      | (i, b) # rest \<Rightarrow> Some i)"

definition beatErr :: "real \<Rightarrow> real \<Rightarrow> real option" where
  "beatErr currentTime d =
     (case js_rem currentTime d of
        None \<Rightarrow> None
      | Some timeSinceLastBeat \<Rightarrow>
          (let progress = timeSinceLastBeat / d in Some (min progress (1 - progress))))"

text \<open>The \<open>if\<close> chain on \<open>beatErr\<close>: result, points and the camera shake.\<close>

definition judge :: "real option \<Rightarrow> BuildingResult \<times> real \<times> real" where
  "judge err =
     (if js_less err 0.08 then (PERFECT, 1000, 35)
      else if js_less err 0.22 then (GOOD, 500, 15)
      else (MISS, 0, 5))"

fun resultText :: "BuildingResult \<Rightarrow> string" where
  "resultText PERFECT = ''PERFECT''"
| "resultText GOOD = ''GOOD''"
| "resultText MISS = ''MISS''"
| "resultText NONE = ''NONE''"

definition lockTarget :: "BuildingResult \<Rightarrow> Building \<Rightarrow> Building" where
  "lockTarget result b =
     b\<lparr>isLocked := True,
       quality := Some result,
       height := (if result = PERFECT then 1.0 else 0.6),
       color := (if result = PERFECT then buildingLocked else ''#fde047'')\<rparr>"

text \<open>
  \<open>handleInput\<close> at audio time \<open>currentTime\<close>: the canvas it leaves and the arguments
  of its call of \<open>onScoreUpdate\<close>, if it makes one.
\<close>

definition handleInput ::
  "GameState \<Rightarrow> real \<Rightarrow> GameCanvas \<Rightarrow> GameCanvas \<times> (real \<times> BuildingResult) option" where
  "handleInput gs currentTime c =
     (if gs \<noteq> PLAYING then (c, None)
      else case selectTarget (buildings c) of
        None \<Rightarrow> (c, None)
      | Some i \<Rightarrow>
          (let (result, points, sh) = judge (beatErr currentTime (beatDuration c))
           in if result \<noteq> MISS then
                (c\<lparr>buildings := (buildings c)[i := lockTarget result (buildings c ! i)],
                   feedback := Some \<lparr>text_fb = resultText result,
                     color_fb = (if result = PERFECT then ''#22d3ee'' else ''#fde047''),
                     alpha_fb = 1.0, y_fb = 0\<rparr>,
                   shake := sh\<rparr>,
                 Some (points, result))
              else
                (c\<lparr>feedback := Some \<lparr>text_fb = ''MISS'', color_fb = ''#ef4444'',
                     alpha_fb = 1.0, y_fb = 0\<rparr>,
                   shake := sh\<rparr>,
                 Some (0, MISS))))"

subsection \<open>render: the gameplay objects\<close>

text \<open>
  The body of the \<open>forEach\<close> over the buildings: the building moves, and the flag says
  whether \<open>onPassiveMiss\<close> was called for it.
\<close>

definition advanceBuilding :: "real \<Rightarrow> real \<Rightarrow> Building \<Rightarrow> Building \<times> bool" where
  "advanceBuilding speed deltaTime b =
     (let b1 = b\<lparr>z_b := z_b b - speed * deltaTime\<rparr>
      in if \<not> isLocked b1 \<and> \<not> hasMissed b1 \<and> z_b b1 < BUILD_LINE_Z - 60
         then (b1\<lparr>hasMissed := True\<rparr>, True)
         else (b1, False))"

text \<open>The pushed building; \<open>rid\<close> and \<open>rlane\<close> are the two results of \<open>Math.random()\<close>.\<close>

definition spawn :: "real \<Rightarrow> real \<Rightarrow> real \<Rightarrow> Building" where
  "spawn lastZ rid rlane =
     \<lparr>id_b = rid, type_b = skyscraper, height = 0.2, color = buildingActive,
      z_b = lastZ + 400, x_b = (of_int \<lfloor>rlane * 5\<rfloor> - 2) * 250,
      isLocked = False, quality = None, hasMissed = False\<rparr>"

text \<open>
  The block under \<open>gameState === PLAYING\<close>: the buildings it leaves and the number of
  calls of \<open>onPassiveMiss\<close>.
\<close>

definition gameplay ::
  "real \<Rightarrow> real \<Rightarrow> real \<Rightarrow> real \<Rightarrow> Building list \<Rightarrow> Building list \<times> nat" where
  "gameplay speed deltaTime rid rlane bs =
     (let stepped = map (advanceBuilding speed deltaTime) bs;
          kept = filter (\<lambda>b. z_b b > - 200) (map fst stepped);
          lastZ = (if kept \<noteq> [] then z_b (last kept) else 1500)
      in (if length kept < 8 then kept @ [spawn lastZ rid rlane] else kept,
          length (filter snd stepped)))"

text \<open>\<open>Array.prototype.sort\<close> with \<open>(a, b) => b.z - a.z\<close>: in place, stable, farthest first.\<close>

definition sortFarthestFirst :: "Building list \<Rightarrow> Building list" where
  "sortFarthestFirst bs = sort_key (\<lambda>b. - z_b b) bs"

definition fade :: "Feedback \<Rightarrow> Feedback option" where
  "fade fb =
     (let fb1 = fb\<lparr>alpha_fb := alpha_fb fb - 0.03, y_fb := y_fb fb - 1\<rparr>
      in if alpha_fb fb1 \<le> 0 then None else Some fb1)"

text \<open>
  One call of \<open>render\<close> at timestamp \<open>time\<close>, as far as it touches the refs. \<open>run\<close> is
  \<open>audioEngine.isRunning()\<close> and \<open>bassEnergy\<close> the energy read from the analyser when it
  is. The result carries the number of calls of \<open>onPassiveMiss\<close>.
\<close>

definition render ::
  "GameState \<Rightarrow> real \<Rightarrow> bool \<Rightarrow> real \<Rightarrow> real \<Rightarrow> real \<Rightarrow> GameCanvas \<Rightarrow> GameCanvas \<times> nat" where
  "render gs time run bassEnergy rid rlane c =
     (let last0 = (if lastTime c = 0 then time else lastTime c);
          deltaTime = (time - last0) / 1000;
          speed = (if run then 500 + bassEnergy * 300 else 200);
          (bs, misses) = (if gs = PLAYING then gameplay speed deltaTime rid rlane (buildings c)
                          else (buildings c, 0))
      in (c\<lparr>buildings := sortFarthestFirst bs,
            lastTime := time,
            feedback := (case feedback c of None \<Rightarrow> None | Some fb \<Rightarrow> fade fb)\<rparr>,
          misses))"

datatype CanvasEvent =
  Input GameState real
  | Render GameState real bool real real real

fun canvasStep :: "GameCanvas \<Rightarrow> CanvasEvent \<Rightarrow> GameCanvas" where
  "canvasStep c (Input gs currentTime) = fst (handleInput gs currentTime c)"
| "canvasStep c (Render gs time run bassEnergy rid rlane) =
     fst (render gs time run bassEnergy rid rlane c)"

definition canvasRun :: "GameCanvas \<Rightarrow> CanvasEvent list \<Rightarrow> GameCanvas" where
  "canvasRun c evs = foldl canvasStep c evs"

subsection \<open>Counting the passive misses of each building\<close>

text \<open>
  The calls of \<open>onPassiveMiss\<close> over a run of the canvas: those of each \<open>render\<close>, added
  up.
\<close>

fun eventSignals :: "GameCanvas \<Rightarrow> CanvasEvent \<Rightarrow> nat" where
  "eventSignals c (Input gs currentTime) = 0"
| "eventSignals c (Render gs time run bassEnergy rid rlane) =
     snd (render gs time run bassEnergy rid rlane c)"

fun canvasSignals :: "GameCanvas \<Rightarrow> CanvasEvent list \<Rightarrow> nat" where
  "canvasSignals c [] = 0"
| "canvasSignals c (ev # evs) = eventSignals c ev + canvasSignals (canvasStep c ev) evs"

text \<open>The speed and the time step that \<open>render\<close> computes for a frame.\<close>

definition frameSpeed :: "bool \<Rightarrow> real \<Rightarrow> real" where
  "frameSpeed run bassEnergy = (if run then 500 + bassEnergy * 300 else 200)"

definition frameDelta :: "real \<Rightarrow> GameCanvas \<Rightarrow> real" where
  "frameDelta time c = (time - (if lastTime c = 0 then time else lastTime c)) / 1000"

text \<open>
  Bookkeeping, not part of the program: beside each building, the number of calls of
  \<open>onPassiveMiss\<close> made for it. What can happen to one building while it is in the array:
  a frame moves it (\<open>advanceBuilding\<close>), and the number grows when that step makes the
  call; or an input that judged PERFECT or GOOD locks it (\<open>lockTarget\<close>, which
  \<open>handleInput\<close> applies to unlocked buildings only).
\<close>

datatype TargetEvent = Tick real real | Hit BuildingResult

fun targetStep :: "Building \<times> nat \<Rightarrow> TargetEvent \<Rightarrow> Building \<times> nat" where
  "targetStep (b, n) (Tick speed deltaTime) =
     (let (b1, missed) = advanceBuilding speed deltaTime b
      in (b1, if missed then n + 1 else n))"
| "targetStep (b, n) (Hit result) =
     (if isLocked b \<or> result = MISS then (b, n) else (lockTarget result b, n))"

text \<open>
  The array with the numbers beside the buildings, and the buildings the filter has
  removed with theirs. \<open>trackStep\<close> does to the pairs what the event does to the
  buildings of the canvas \<open>c\<close> it happens in: a frame steps every pair, moves the pairs
  at or behind \<open>- 200\<close> to the removed ones, pushes a new building with the number 0
  and sorts; an input steps the pair at the index of the selected target.
\<close>

type_synonym Tracked = "(Building \<times> nat) list \<times> (Building \<times> nat) list"

definition trackGameplay :: "real \<Rightarrow> real \<Rightarrow> real \<Rightarrow> real \<Rightarrow> Tracked \<Rightarrow> Tracked" where
  "trackGameplay speed deltaTime rid rlane tr =
     (let stepped = map (\<lambda>p. targetStep p (Tick speed deltaTime)) (fst tr);
          kept = filter (\<lambda>p. z_b (fst p) > - 200) stepped;
          lastZ = (if kept \<noteq> [] then z_b (fst (last kept)) else 1500)
      in (if length kept < 8 then kept @ [(spawn lastZ rid rlane, 0)] else kept,
          snd tr @ filter (\<lambda>p. \<not> z_b (fst p) > - 200) stepped))"

fun trackStep :: "GameCanvas \<Rightarrow> Tracked \<Rightarrow> CanvasEvent \<Rightarrow> Tracked" where
  "trackStep c tr (Render gs time run bassEnergy rid rlane) =
     (let tr1 = (if gs = PLAYING
                 then trackGameplay (frameSpeed run bassEnergy) (frameDelta time c) rid rlane tr
                 else tr)
      in (sort_key (\<lambda>p. - z_b (fst p)) (fst tr1), snd tr1))"
| "trackStep c tr (Input gs currentTime) =
     (if gs \<noteq> PLAYING then tr
      else case selectTarget (buildings c) of
        None \<Rightarrow> tr
      | Some i \<Rightarrow>
          ((fst tr)[i := targetStep (fst tr ! i)
                     (Hit (fst (judge (beatErr currentTime (beatDuration c)))))],
           snd tr))"

fun trackRun :: "GameCanvas \<Rightarrow> Tracked \<Rightarrow> CanvasEvent list \<Rightarrow> Tracked" where
  "trackRun c tr [] = tr"
| "trackRun c tr (ev # evs) = trackRun (canvasStep c ev) (trackStep c tr ev) evs"

definition total :: "Tracked \<Rightarrow> nat" where
  "total tr = sum_list (map snd (fst tr)) + sum_list (map snd (snd tr))"

text \<open>
  The number beside a building is 1 if it is flagged \<open>hasMissed\<close> and 0 if not, and it
  is 1 if the building is unlocked and below the build line less the slack.
\<close>

definition countedOnce :: "Building \<times> nat \<Rightarrow> bool" where
  "countedOnce p =
     (snd p = (if hasMissed (fst p) then 1 else 0)
      \<and> (\<not> isLocked (fst p) \<and> z_b (fst p) < BUILD_LINE_Z - 60 \<longrightarrow> snd p = 1))"

section \<open>Predicates used in the statements\<close>

text \<open>The quality of a building is \<open>null\<close>, PERFECT or GOOD.\<close>

definition qualityOK :: "Building \<Rightarrow> bool" where
  "qualityOK b = (quality b = None \<or> quality b = Some PERFECT \<or> quality b = Some GOOD)"






section \<open>Health, score and combo\<close>

lemma handleScoreUpdate_health_range:
  "0 \<le> health a \<Longrightarrow> health a \<le> 100 \<Longrightarrow>
   0 \<le> health (handleScoreUpdate p r a) \<and> health (handleScoreUpdate p r a) \<le> 100"
  by (simp add: handleScoreUpdate_def Let_def)

lemma handlePassiveMiss_health_range:
  "0 \<le> health a \<Longrightarrow> health a \<le> 100 \<Longrightarrow>
   0 \<le> health (handlePassiveMiss a) \<and> health (handlePassiveMiss a) \<le> 100"
  by (simp add: handlePassiveMiss_def)

lemma startGame_health_range:
  "0 \<le> health a \<Longrightarrow> health a \<le> 100 \<Longrightarrow>
   0 \<le> health (startGame d a) \<and> health (startGame d a) \<le> 100"
  by (simp add: startGame_def Let_def split: option.splits prod.splits Outcome.splits)

lemma healthEffect_health: "health (healthEffect a) = health a"
  by (simp add: healthEffect_def handleGameOver_def)

lemma rerender_health: "health (rerender a) = health a"
  by (simp add: rerender_def healthEffect_health)

lemma appStep_health_range:
  "0 \<le> health a \<Longrightarrow> health a \<le> 100 \<Longrightarrow>
   0 \<le> health (appStep a ev) \<and> health (appStep a ev) \<le> 100"
  by (cases ev)
    (simp_all add: rerender_health handleScoreUpdate_health_range
      handlePassiveMiss_health_range startGame_health_range)

lemma appRun_snoc: "appRun a (evs @ [ev]) = appStep (appRun a evs) ev"
  by (simp add: appRun_def)

lemma appRun_health_range:
  "0 \<le> health a \<Longrightarrow> health a \<le> 100 \<Longrightarrow>
   0 \<le> health (appRun a evs) \<and> health (appRun a evs) \<le> 100"
proof (induction evs rule: rev_induct)
  case Nil
  then show ?case by (simp add: appRun_def)
next
  case (snoc ev evs)
  then show ?case
    using appStep_health_range [of "appRun a evs" ev] by (simp add: appRun_snoc)
qed

text \<open>
  C5. From the initial state (health 100), after any sequence of judged inputs, passive
  misses, (re)starts and renders the health lies in \<open>[0, 100]\<close>; in every such state an active
  MISS takes 15 and a passive miss 10, never below 0, a PERFECT adds 5, never above 100,
  and a GOOD leaves the health alone.
\<close>

theorem health_stays_in_range:
  "0 \<le> health (appRun newApp evs) \<and> health (appRun newApp evs) \<le> 100
   \<and> health (handleScoreUpdate p MISS (appRun newApp evs)) = max 0 (health (appRun newApp evs) - 15)
   \<and> health (handlePassiveMiss (appRun newApp evs)) = max 0 (health (appRun newApp evs) - 10)
   \<and> health (handleScoreUpdate p PERFECT (appRun newApp evs))
       = min 100 (health (appRun newApp evs) + 5)
   \<and> health (handleScoreUpdate p GOOD (appRun newApp evs)) = health (appRun newApp evs)"
proof -
  have "0 \<le> health (appRun newApp evs) \<and> health (appRun newApp evs) \<le> 100"
    by (rule appRun_health_range) (simp_all add: newApp_def)
  then show ?thesis
    by (simp add: handleScoreUpdate_def handlePassiveMiss_def Let_def)
qed

theorem health_stays_in_range_witness:
  "health (appRun newApp [Judged 0 MISS, PassiveMiss, Judged 1000 PERFECT, Judged 1000 PERFECT]) = 85"
  using health_stays_in_range [of "[Judged 0 MISS, PassiveMiss, Judged 1000 PERFECT]" 1000]
  by (simp add: appRun_def newApp_def handleScoreUpdate_def handlePassiveMiss_def
      healthEffect_def Let_def)

lemma multiplier_by_captured_combo:
  "result \<noteq> MISS \<Longrightarrow>
   score (handleScoreUpdate p result a)
     = score a + \<lfloor>p * (1 + of_int \<lfloor>of_int (capturedCombo a) / (5::real)\<rfloor> * 0.5)\<rfloor>
   \<and> combo (handleScoreUpdate p result a) = combo a + 1"
  by (simp add: handleScoreUpdate_def Let_def)

lemmas app_eval =
  appRun_def newApp_def handleScoreUpdate_def handlePassiveMiss_def rerender_def
  healthEffect_def Let_def

text \<open>
  C6. Five PERFECT inputs of 1000 points, each followed by a render, bring the score to
  5000 and the combo to 5; a passive miss then sets the combo to 0. A PERFECT input
  handled before the next render adds 1500, the points at the combo of 5 that the handler
  still holds, where the combo held before the hit is 0 and calls for 1000; the combo
  then is 1. With a render between the miss and the input, the input adds 1000.
\<close>

theorem stale_combo_multiplier:
  "score (appRun newApp
      [Judged 1000 PERFECT, Rerender, Judged 1000 PERFECT, Rerender, Judged 1000 PERFECT,
       Rerender, Judged 1000 PERFECT, Rerender, Judged 1000 PERFECT, Rerender,
       PassiveMiss]) = 5000
   \<and> combo (appRun newApp
      [Judged 1000 PERFECT, Rerender, Judged 1000 PERFECT, Rerender, Judged 1000 PERFECT,
       Rerender, Judged 1000 PERFECT, Rerender, Judged 1000 PERFECT, Rerender,
       PassiveMiss]) = 0
   \<and> score (appRun newApp
      [Judged 1000 PERFECT, Rerender, Judged 1000 PERFECT, Rerender, Judged 1000 PERFECT,
       Rerender, Judged 1000 PERFECT, Rerender, Judged 1000 PERFECT, Rerender,
       PassiveMiss, Judged 1000 PERFECT]) = 6500
   \<and> combo (appRun newApp
      [Judged 1000 PERFECT, Rerender, Judged 1000 PERFECT, Rerender, Judged 1000 PERFECT,
       Rerender, Judged 1000 PERFECT, Rerender, Judged 1000 PERFECT, Rerender,
       PassiveMiss, Judged 1000 PERFECT]) = 1
   \<and> score (appRun newApp
      [Judged 1000 PERFECT, Rerender, Judged 1000 PERFECT, Rerender, Judged 1000 PERFECT,
       Rerender, Judged 1000 PERFECT, Rerender, Judged 1000 PERFECT, Rerender,
       PassiveMiss, Rerender, Judged 1000 PERFECT]) = 6000"
  by (simp add: app_eval)

section \<open>The judgment\<close>

lemma handleInput_report:
  "gs = PLAYING \<Longrightarrow> selectTarget (buildings c) = Some i \<Longrightarrow>
   snd (handleInput gs t c) =
     (case judge (beatErr t (beatDuration c)) of (result, points, sh) \<Rightarrow> Some (points, result))"
  by (simp add: handleInput_def judge_def Let_def)

lemma beatErr_Some:
  "js_rem t d = Some r \<Longrightarrow> beatErr t d = Some (min (r / d) (1 - r / d))"
  by (simp add: beatErr_def Let_def)

text \<open>
  C1. For an input in the PLAYING state with a target present, where
  \<open>currentTime % beatDuration\<close> is the number \<open>timeSinceLastBeat\<close>,
  \<open>progress = timeSinceLastBeat / beatDuration\<close> and \<open>err = min progress (1 - progress)\<close>:
  the report is 1000 points and PERFECT exactly when \<open>err < 0.08\<close>, 500 points and GOOD
  exactly when \<open>0.08 \<le> err < 0.22\<close>, and 0 points and MISS exactly when \<open>0.22 \<le> err\<close>.
\<close>

theorem judgment_classification:
  assumes "gs = PLAYING"
    and "selectTarget (buildings c) = Some i"
    and "js_rem currentTime (beatDuration c) = Some timeSinceLastBeat"
    and "progress = timeSinceLastBeat / beatDuration c"
    and "err = min progress (1 - progress)"
  shows "(snd (handleInput gs currentTime c) = Some (1000, PERFECT) \<longleftrightarrow> err < 0.08)
    \<and> (snd (handleInput gs currentTime c) = Some (500, GOOD) \<longleftrightarrow> 0.08 \<le> err \<and> err < 0.22)
    \<and> (snd (handleInput gs currentTime c) = Some (0, MISS) \<longleftrightarrow> 0.22 \<le> err)"
proof -
  have "beatErr currentTime (beatDuration c) = Some err"
    using assms(3-5) by (simp add: beatErr_Some)
  then have "snd (handleInput gs currentTime c) =
      (if err < 0.08 then Some (1000, PERFECT)
       else if err < 0.22 then Some (500, GOOD) else Some (0, MISS))"
    using assms(1,2) by (simp add: handleInput_report judge_def)
  then show ?thesis
    by auto
qed

theorem judgment_classification_witness:
  "selectTarget (buildings (newCanvas\<lparr>buildings := [spawn 1500 0 0]\<rparr>)) = Some 0
   \<and> js_rem (3 / 5) (beatDuration (newCanvas\<lparr>buildings := [spawn 1500 0 0]\<rparr>)) = Some (9 / 115)
   \<and> snd (handleInput PLAYING (3 / 5) (newCanvas\<lparr>buildings := [spawn 1500 0 0]\<rparr>))
       = Some (500, GOOD)"
proof -
  have a: "selectTarget (buildings (newCanvas\<lparr>buildings := [spawn 1500 0 0]\<rparr>)) = Some 0"
    by (simp add: selectTarget_def spawn_def)
  have b: "js_rem (3 / 5) (beatDuration (newCanvas\<lparr>buildings := [spawn 1500 0 0]\<rparr>)) = Some (9 / 115)"
    by (simp add: js_rem_def js_trunc_def newCanvas_def bpm_def)
  have c: "(3 / 20 :: real) = (9 / 115) / beatDuration (newCanvas\<lparr>buildings := [spawn 1500 0 0]\<rparr>)"
    by (simp add: newCanvas_def bpm_def)
  have d: "(3 / 20 :: real) = min (3 / 20) (1 - 3 / 20)"
    by simp
  show ?thesis
    using judgment_classification [OF refl a b c d] a b by simp
qed

lemma js_rem_nonneg:
  "0 \<le> t \<Longrightarrow> 0 < d \<Longrightarrow> js_rem t d = Some (t - d * of_int \<lfloor>t / d\<rfloor>)"
  by (simp add: js_rem_def js_trunc_def)

lemma js_rem_shift:
  assumes "0 \<le> t" and "0 < d"
  shows "js_rem (t + d) d = js_rem t d"
proof -
  have "(t + d) / d = t / d + 1"
    using assms(2) by (simp add: field_simps)
  then have "\<lfloor>(t + d) / d\<rfloor> = \<lfloor>t / d\<rfloor> + 1"
    by simp
  then have "js_rem (t + d) d = Some (t + d - d * of_int (\<lfloor>t / d\<rfloor> + 1))"
    using assms by (simp add: js_rem_nonneg)
  also have "\<dots> = Some (t - d * of_int \<lfloor>t / d\<rfloor>)"
    by (simp add: algebra_simps)
  finally show ?thesis
    using assms by (simp add: js_rem_nonneg)
qed

lemma js_rem_multiple:
  assumes "d \<noteq> 0"
  shows "js_rem (of_int k * d) d = Some 0"
proof -
  have "of_int k * d / d = (of_int k :: real)"
    using assms by simp
  then show ?thesis
    using assms by (simp add: js_rem_def js_trunc_def)
qed

text \<open>
  C7. For every tempo above 0, with \<open>secondsPerBeat = 60 / tempo\<close>: the phase error at
  \<open>audioTime + secondsPerBeat\<close> is the phase error at \<open>audioTime\<close>, for every
  \<open>audioTime\<close> from 0 on; at a beat boundary \<open>k * secondsPerBeat\<close>, \<open>k\<close> an integer, the
  error is 0, the judgment is PERFECT, and an input there with a target present reports
  1000 points and PERFECT.
\<close>

theorem phase_error_periodic:
  assumes "0 < tempo" and "secondsPerBeat = 60 / tempo"
  shows "(0 \<le> audioTime \<longrightarrow>
            beatErr (audioTime + secondsPerBeat) secondsPerBeat = beatErr audioTime secondsPerBeat)
    \<and> beatErr (of_int k * secondsPerBeat) secondsPerBeat = Some 0
    \<and> judge (beatErr (of_int k * secondsPerBeat) secondsPerBeat) = (PERFECT, 1000, 35)
    \<and> (selectTarget (buildings c) \<noteq> None \<and> beatDuration c = secondsPerBeat \<longrightarrow>
          snd (handleInput PLAYING (of_int k * secondsPerBeat) c) = Some (1000, PERFECT))"
proof -
  have pos: "0 < secondsPerBeat"
    using assms by simp
  have zero: "beatErr (of_int k * secondsPerBeat) secondsPerBeat = Some 0"
    using pos by (simp add: beatErr_def js_rem_multiple)
  have per: "0 \<le> audioTime \<Longrightarrow>
      beatErr (audioTime + secondsPerBeat) secondsPerBeat = beatErr audioTime secondsPerBeat"
    using pos by (simp add: beatErr_def js_rem_shift)
  have jud: "judge (Some 0) = (PERFECT, 1000, 35)"
    by (simp add: judge_def)
  show ?thesis
    using zero per jud by (auto simp add: handleInput_report)
qed

theorem phase_error_periodic_witness:
  "(0::real) < 115 \<and> (0::real) \<le> 1 / 10
   \<and> selectTarget (buildings (newCanvas\<lparr>buildings := [spawn 1500 0 0]\<rparr>)) \<noteq> None
   \<and> beatDuration (newCanvas\<lparr>buildings := [spawn 1500 0 0]\<rparr>) = 60 / 115
   \<and> beatErr (1 / 10 + 60 / 115) (60 / 115) = beatErr (1 / 10) (60 / 115)
   \<and> beatErr (3 * (60 / 115)) (60 / 115) = Some 0
   \<and> snd (handleInput PLAYING (3 * (60 / 115)) (newCanvas\<lparr>buildings := [spawn 1500 0 0]\<rparr>))
       = Some (1000, PERFECT)"
proof -
  have a: "(0::real) < 115" by simp
  have b: "selectTarget (buildings (newCanvas\<lparr>buildings := [spawn 1500 0 0]\<rparr>)) \<noteq> None
      \<and> beatDuration (newCanvas\<lparr>buildings := [spawn 1500 0 0]\<rparr>) = 60 / 115"
    by (simp add: selectTarget_def spawn_def newCanvas_def bpm_def)
  show ?thesis
    using phase_error_periodic [OF a refl, of "1 / 10" 3 "newCanvas\<lparr>buildings := [spawn 1500 0 0]\<rparr>"] b
    by simp
qed

section \<open>What an input does to the buildings\<close>

lemma selectTarget_Some:
  assumes "selectTarget bs = Some i"
  shows "i < length bs \<and> \<not> isLocked (bs ! i)"
proof -
  let ?cands = "filter (\<lambda>(i, b). \<not> isLocked b) (enumerate 0 bs)"
  let ?sorted = "sort_key (\<lambda>(i, b). \<bar>z_b b - BUILD_LINE_Z\<bar>) ?cands"
  from assms obtain b rest where "?sorted = (i, b) # rest"
    by (auto simp add: selectTarget_def split: list.splits)
  then have "(i, b) \<in> set ?sorted"
    by simp
  then have "(i, b) \<in> set ?cands"
    by simp
  then show ?thesis
    by (auto simp add: in_set_enumerate_eq)
qed

lemma judge_cases:
  "fst (judge err) = PERFECT \<or> fst (judge err) = GOOD \<or> fst (judge err) = MISS"
  by (simp add: judge_def)

text \<open>
  C9. For an input in the PLAYING state with a target present: when the judgment is MISS
  the array of buildings is left as it was (no field of any building changes and none is
  removed), \<open>(0, MISS)\<close> is reported and the feedback is the MISS token; when it is not
  MISS it is PERFECT or GOOD, and the array changes at the target only, which is locked
  with the result as quality and the height and colour of the result; its depth, lane
  and \<open>hasMissed\<close> flag stay.
\<close>

theorem miss_leaves_target:
  assumes "gs = PLAYING"
    and "selectTarget (buildings c) = Some i"
    and "judge (beatErr currentTime (beatDuration c)) = (result, points, sh)"
  shows "(result = MISS \<longrightarrow>
            buildings (fst (handleInput gs currentTime c)) = buildings c
          \<and> snd (handleInput gs currentTime c) = Some (0, MISS)
          \<and> feedback (fst (handleInput gs currentTime c))
              = Some \<lparr>text_fb = ''MISS'', color_fb = ''#ef4444'', alpha_fb = 1, y_fb = 0\<rparr>)
    \<and> (result \<noteq> MISS \<longrightarrow>
            (result = PERFECT \<or> result = GOOD)
          \<and> i < length (buildings c) \<and> \<not> isLocked (buildings c ! i)
          \<and> buildings (fst (handleInput gs currentTime c))
              = (buildings c)[i := (buildings c ! i)\<lparr>isLocked := True, quality := Some result,
                   height := (if result = PERFECT then 1.0 else 0.6),
                   color := (if result = PERFECT then ''#c026d3'' else ''#fde047'')\<rparr>]
          \<and> snd (handleInput gs currentTime c) = Some (points, result))"
proof -
  have res: "result = PERFECT \<or> result = GOOD \<or> result = MISS"
    using judge_cases [of "beatErr currentTime (beatDuration c)"] assms(3) by simp
  have sel: "i < length (buildings c) \<and> \<not> isLocked (buildings c ! i)"
    using assms(2) by (rule selectTarget_Some)
  show ?thesis
    using assms res sel
    by (auto simp add: handleInput_def lockTarget_def buildingLocked_def)
qed

theorem miss_leaves_target_witness:
  "selectTarget (buildings (newCanvas\<lparr>buildings := [spawn 1500 0 0]\<rparr>)) = Some 0
   \<and> judge (beatErr (1 / 4) (beatDuration (newCanvas\<lparr>buildings := [spawn 1500 0 0]\<rparr>))) = (MISS, 0, 5)
   \<and> buildings (fst (handleInput PLAYING (1 / 4) (newCanvas\<lparr>buildings := [spawn 1500 0 0]\<rparr>)))
       = [spawn 1500 0 0]
   \<and> snd (handleInput PLAYING (1 / 4) (newCanvas\<lparr>buildings := [spawn 1500 0 0]\<rparr>)) = Some (0, MISS)"
proof -
  have a: "selectTarget (buildings (newCanvas\<lparr>buildings := [spawn 1500 0 0]\<rparr>)) = Some 0"
    by (simp add: selectTarget_def spawn_def)
  have b: "judge (beatErr (1 / 4) (beatDuration (newCanvas\<lparr>buildings := [spawn 1500 0 0]\<rparr>))) = (MISS, 0, 5)"
    by (simp add: judge_def beatErr_def js_rem_def js_trunc_def newCanvas_def bpm_def Let_def)
  show ?thesis
    using miss_leaves_target [OF refl a b] a b by simp
qed

lemma handleInput_qualityOK:
  assumes "\<forall>b\<in>set (buildings c). qualityOK b"
  shows "\<forall>b\<in>set (buildings (fst (handleInput gs t c))). qualityOK b"
proof (cases "gs = PLAYING")
  case False
  then show ?thesis using assms by (simp add: handleInput_def)
next
  case True
  show ?thesis
  proof (cases "selectTarget (buildings c)")
    case None
    then show ?thesis using assms by (simp add: handleInput_def)
  next
    case (Some i)
    obtain result points sh where j: "judge (beatErr t (beatDuration c)) = (result, points, sh)"
      by (cases "judge (beatErr t (beatDuration c))") auto
    have res: "result = PERFECT \<or> result = GOOD \<or> result = MISS"
      using judge_cases [of "beatErr t (beatDuration c)"] j by simp
    have "qualityOK (lockTarget result (buildings c ! i))" if "result \<noteq> MISS"
      using res that by (auto simp add: qualityOK_def lockTarget_def)
    then show ?thesis
      using assms True Some j
      by (auto simp add: handleInput_def dest!: set_update_subset_insert [THEN subsetD])
  qed
qed

lemma advanceBuilding_quality: "quality (fst (advanceBuilding s d b)) = quality b"
  by (simp add: advanceBuilding_def Let_def)

lemma gameplay_qualityOK:
  assumes "\<forall>b\<in>set bs. qualityOK b"
  shows "\<forall>b\<in>set (fst (gameplay s d rid rlane bs)). qualityOK b"
  using assms
  by (auto simp add: gameplay_def Let_def qualityOK_def advanceBuilding_quality spawn_def)

lemma render_buildings:
  "buildings (fst (render gs time run bass rid rlane c)) =
     sortFarthestFirst
       (if gs = PLAYING
        then fst (gameplay (if run then 500 + bass * 300 else 200)
                   ((time - (if lastTime c = 0 then time else lastTime c)) / 1000)
                   rid rlane (buildings c))
        else buildings c)"
  by (simp add: render_def Let_def split_beta)

lemma render_qualityOK:
  assumes "\<forall>b\<in>set (buildings c). qualityOK b"
  shows "\<forall>b\<in>set (buildings (fst (render gs time run bass rid rlane c))). qualityOK b"
  using assms
  by (simp add: render_buildings sortFarthestFirst_def gameplay_qualityOK)

lemma canvasRun_snoc: "canvasRun c (evs @ [ev]) = canvasStep (canvasRun c evs) ev"
  by (simp add: canvasRun_def)

lemma canvasStep_qualityOK:
  assumes "\<forall>b\<in>set (buildings c). qualityOK b"
  shows "\<forall>b\<in>set (buildings (canvasStep c ev)). qualityOK b"
proof (cases ev)
  case (Input gs t)
  then show ?thesis
    using handleInput_qualityOK [OF assms, of gs t] by simp
next
  case (Render gs time run bass rid rlane)
  then show ?thesis
    using render_qualityOK [OF assms, of gs time run bass rid rlane] by simp
qed

lemma canvasRun_qualityOK:
  "\<forall>b\<in>set (buildings (canvasRun newCanvas evs)). qualityOK b"
proof (induction evs rule: rev_induct)
  case Nil
  show ?case by (simp add: canvasRun_def newCanvas_def)
next
  case (snoc ev evs)
  show ?case
    unfolding canvasRun_snoc using snoc by (rule canvasStep_qualityOK)
qed

text \<open>
  C10. In every state the canvas reaches from its initial one by inputs and frames, with
  any game state, audio time, frame time, energy and random numbers, no building has the
  quality MISS: each quality is \<open>null\<close>, PERFECT or GOOD.
\<close>

theorem quality_never_miss:
  "\<forall>b\<in>set (buildings (canvasRun newCanvas evs)).
     quality b \<noteq> Some MISS
     \<and> (quality b = None \<or> quality b = Some PERFECT \<or> quality b = Some GOOD)"
  using canvasRun_qualityOK [of evs] by (auto simp add: qualityOK_def)

lemma handleInput_buildings:
  "gs = PLAYING \<Longrightarrow> selectTarget (buildings c) = Some i \<Longrightarrow>
   judge (beatErr t (beatDuration c)) = (result, points, sh) \<Longrightarrow>
   buildings (fst (handleInput gs t c)) =
     (if result \<noteq> MISS then (buildings c)[i := lockTarget result (buildings c ! i)]
      else buildings c)"
  by (simp add: handleInput_def)

theorem quality_never_miss_witness:
  "map quality (buildings (canvasRun newCanvas
      [Render PLAYING 16 False 0 0 (1 / 2), Input PLAYING 0])) = [Some PERFECT]
   \<and> quality (hd (buildings (canvasRun newCanvas
      [Render PLAYING 16 False 0 0 (1 / 2), Input PLAYING 0]))) \<noteq> Some MISS"
proof -
  let ?c = "fst (render PLAYING 16 False 0 0 (1 / 2) newCanvas)"
  have bs: "buildings ?c = [spawn 1500 0 (1 / 2)]"
    by (simp add: render_buildings gameplay_def sortFarthestFirst_def newCanvas_def)
  have sel: "selectTarget (buildings ?c) = Some 0"
    unfolding bs by (simp add: selectTarget_def spawn_def)
  have d: "beatDuration ?c = 60 / 115"
    by (simp add: render_def Let_def split_beta newCanvas_def bpm_def)
  have j: "judge (beatErr 0 (beatDuration ?c)) = (PERFECT, 1000, 35)"
    unfolding d by (simp add: judge_def beatErr_def js_rem_def js_trunc_def)
  have "buildings (fst (handleInput PLAYING 0 ?c)) = [lockTarget PERFECT (spawn 1500 0 (1 / 2))]"
    using handleInput_buildings [OF refl sel j] by (simp add: bs)
  then have q: "map quality (buildings (canvasRun newCanvas
      [Render PLAYING 16 False 0 0 (1 / 2), Input PLAYING 0])) = [Some PERFECT]"
    by (simp add: canvasRun_def lockTarget_def)
  then have "hd (buildings (canvasRun newCanvas
      [Render PLAYING 16 False 0 0 (1 / 2), Input PLAYING 0]))
    \<in> set (buildings (canvasRun newCanvas
      [Render PLAYING 16 False 0 0 (1 / 2), Input PLAYING 0]))"
    by (intro hd_in_set) auto
  then show ?thesis
    using quality_never_miss [of "[Render PLAYING 16 False 0 0 (1 / 2), Input PLAYING 0]"] q
    by blast
qed

section \<open>Spawning\<close>

lemma render_canvas:
  "fst (render gs time run bass rid rlane c) =
     c\<lparr>buildings := sortFarthestFirst
         (if gs = PLAYING
          then fst (gameplay (if run then 500 + bass * 300 else 200)
                     ((time - (if lastTime c = 0 then time else lastTime c)) / 1000)
                     rid rlane (buildings c))
          else buildings c),
       lastTime := time,
       feedback := (case feedback c of None \<Rightarrow> None | Some fb \<Rightarrow> fade fb)\<rparr>"
  by (simp add: render_def Let_def split_beta)

text \<open>
  C8. Three frames 16 ms apart in the PLAYING state, from the empty canvas, with the
  audio running: the second frame pushes a building 400 behind the first, and the sort
  puts it in front of the array; the third frame reads the depth of the last element of
  the array, which is now the nearest building, and pushes the third building at the
  depth of the second, not 400 behind it.
\<close>

theorem third_spawn_not_behind_newest:
  "map z_b (buildings (canvasRun newCanvas
      [Render PLAYING 1000 True 0 0 0, Render PLAYING 1016 True 0 0 0])) = [2292, 1892]
   \<and> map z_b (buildings (canvasRun newCanvas
      [Render PLAYING 1000 True 0 0 0, Render PLAYING 1016 True 0 0 0,
       Render PLAYING 1032 True 0 0 0])) = [2284, 2284, 1884]"
  by (simp add: canvasRun_def render_canvas newCanvas_def gameplay_def sortFarthestFirst_def
      advanceBuilding_def spawn_def BUILD_LINE_Z_def Let_def)


section \<open>Passive misses\<close>

lemma targetStep_Tick:
  "fst (targetStep p (Tick s d)) = fst (advanceBuilding s d (fst p))
   \<and> snd (targetStep p (Tick s d)) = snd p + (if snd (advanceBuilding s d (fst p)) then 1 else 0)"
  by (cases p) (simp add: split_beta)

lemma map_fst_filter: "map fst (filter (\<lambda>p. P (fst p)) xs) = filter P (map fst xs)"
  by (induction xs) simp_all

lemma trackGameplay_buildings:
  "map fst (fst (trackGameplay s d rid rlane tr)) = fst (gameplay s d rid rlane (map fst (fst tr)))"
proof -
  define kt where "kt = filter (\<lambda>p. z_b (fst p) > - 200)
      (map (\<lambda>p. targetStep p (Tick s d)) (fst tr))"
  define kg where "kg = filter (\<lambda>b. z_b b > - 200)
      (map fst (map (advanceBuilding s d) (map fst (fst tr))))"
  have "map fst (map (\<lambda>p. targetStep p (Tick s d)) (fst tr))
      = map fst (map (advanceBuilding s d) (map fst (fst tr)))"
    by (simp add: targetStep_Tick)
  then have K: "map fst kt = kg"
    unfolding kt_def kg_def
    by (simp only: map_fst_filter [of "\<lambda>b. z_b b > - 200"])
  have T: "fst (trackGameplay s d rid rlane tr)
      = (if length kt < 8
         then kt @ [(spawn (if kt \<noteq> [] then z_b (fst (last kt)) else 1500) rid rlane, 0)]
         else kt)"
    by (simp only: trackGameplay_def Let_def kt_def fst_conv)
  have G: "fst (gameplay s d rid rlane (map fst (fst tr)))
      = (if length kg < 8
         then kg @ [spawn (if kg \<noteq> [] then z_b (last kg) else 1500) rid rlane]
         else kg)"
    by (simp only: gameplay_def Let_def kg_def fst_conv)
  have L: "length kt = length kg" and E: "kt = [] \<longleftrightarrow> kg = []"
    and La: "kt \<noteq> [] \<Longrightarrow> fst (last kt) = last kg"
    using K by (auto simp add: last_map [symmetric])
  show ?thesis
    unfolding T G using K L E La by simp
qed


lemma sum_filter_split:
  "sum_list (map f (filter P xs)) + sum_list (map f (filter (\<lambda>x. \<not> P x) xs))
     = (sum_list (map f xs) :: nat)"
  by (induction xs) simp_all

lemma sum_stepped:
  "sum_list (map snd (map (\<lambda>p. targetStep p (Tick s d)) ps))
     = sum_list (map snd ps) + length (filter snd (map (advanceBuilding s d) (map fst ps)))"
  by (induction ps) (simp_all add: targetStep_Tick)

lemma trackGameplay_total:
  "total (trackGameplay s d rid rlane tr)
     = total tr + snd (gameplay s d rid rlane (map fst (fst tr)))"
proof -
  define stepped where "stepped = map (\<lambda>p. targetStep p (Tick s d)) (fst tr)"
  define kt where "kt = filter (\<lambda>p. z_b (fst p) > - 200) stepped"
  define lost where "lost = filter (\<lambda>p. \<not> z_b (fst p) > - 200) stepped"
  have T: "trackGameplay s d rid rlane tr
      = (if length kt < 8
         then kt @ [(spawn (if kt \<noteq> [] then z_b (fst (last kt)) else 1500) rid rlane, 0)]
         else kt,
         snd tr @ lost)"
    by (simp only: trackGameplay_def Let_def kt_def lost_def stepped_def)
  have "sum_list (map snd kt) + sum_list (map snd lost) = sum_list (map snd stepped)"
    unfolding kt_def lost_def by (rule sum_filter_split)
  moreover have "sum_list (map snd stepped)
      = sum_list (map snd (fst tr))
        + length (filter snd (map (advanceBuilding s d) (map fst (fst tr))))"
    unfolding stepped_def by (rule sum_stepped)
  moreover have "snd (gameplay s d rid rlane (map fst (fst tr)))
      = length (filter snd (map (advanceBuilding s d) (map fst (fst tr))))"
    by (simp add: gameplay_def Let_def)
  ultimately show ?thesis
    unfolding T by (simp add: total_def)
qed

lemma map_fst_insort:
  "map fst (insort_key (\<lambda>p. f (fst p)) x xs) = insort_key f (fst x) (map fst xs)"
  by (induction xs) simp_all

lemma map_fst_sort: "map fst (sort_key (\<lambda>p. f (fst p)) xs) = sort_key f (map fst xs)"
  by (induction xs) (simp_all add: map_fst_insort)

lemma sum_insort: "sum_list (map g (insort_key k x xs)) = g x + (sum_list (map g xs) :: nat)"
  by (induction xs) simp_all

lemma sum_sort: "sum_list (map g (sort_key k xs)) = (sum_list (map g xs) :: nat)"
  by (induction xs) (simp_all add: sum_insort)

lemma targetStep_countedOnce: "countedOnce p \<Longrightarrow> countedOnce (targetStep p ev)"
  by (cases p; cases ev)
    (auto simp add: countedOnce_def advanceBuilding_def lockTarget_def Let_def)

lemma targetStep_no_second:
  "isLocked (fst p) \<or> hasMissed (fst p) \<Longrightarrow> snd (targetStep p ev) = snd p"
  by (cases p; cases ev) (auto simp add: advanceBuilding_def lockTarget_def Let_def)

lemma trackGameplay_countedOnce:
  assumes "\<forall>p\<in>set (fst tr) \<union> set (snd tr). countedOnce p"
  shows "\<forall>p\<in>set (fst (trackGameplay s d rid rlane tr))
            \<union> set (snd (trackGameplay s d rid rlane tr)). countedOnce p"
proof -
  define stepped where "stepped = map (\<lambda>p. targetStep p (Tick s d)) (fst tr)"
  define kt where "kt = filter (\<lambda>p. z_b (fst p) > - 200) stepped"
  define lost where "lost = filter (\<lambda>p. \<not> z_b (fst p) > - 200) stepped"
  define lastZ where "lastZ = (if kt \<noteq> [] then z_b (fst (last kt)) else 1500)"
  have T: "trackGameplay s d rid rlane tr
      = (if length kt < 8 then kt @ [(spawn lastZ rid rlane, 0)] else kt, snd tr @ lost)"
    by (simp only: trackGameplay_def Let_def kt_def lost_def stepped_def lastZ_def)
  have st: "\<forall>p\<in>set stepped. countedOnce p"
    using assms by (auto simp add: stepped_def targetStep_countedOnce)
  have "kt \<noteq> [] \<Longrightarrow> last kt \<in> set kt"
    by simp
  then have "kt \<noteq> [] \<Longrightarrow> - 200 < z_b (fst (last kt))"
    by (simp add: kt_def)
  then have "- 200 < lastZ"
    by (simp add: lastZ_def)
  then have new: "countedOnce (spawn lastZ rid rlane, 0)"
    by (simp add: countedOnce_def spawn_def BUILD_LINE_Z_def)
  show ?thesis
    unfolding T using assms st new by (auto simp add: kt_def lost_def)
qed


lemma render_signals:
  "snd (render gs time run bass rid rlane c) =
     (if gs = PLAYING
      then snd (gameplay (frameSpeed run bass) (frameDelta time c) rid rlane (buildings c))
      else 0)"
  by (simp add: render_def Let_def split_beta frameSpeed_def frameDelta_def)

lemma render_buildings_frame:
  "buildings (fst (render gs time run bass rid rlane c)) =
     sortFarthestFirst
       (if gs = PLAYING
        then fst (gameplay (frameSpeed run bass) (frameDelta time c) rid rlane (buildings c))
        else buildings c)"
  by (simp add: render_buildings frameSpeed_def frameDelta_def)

lemmas sort_tracked = map_fst_sort [of "\<lambda>b. - z_b b"]

lemma render_tracked:
  assumes "map fst (fst tr) = buildings c"
  shows "map fst (fst (trackStep c tr (Render gs time run bass rid rlane)))
           = buildings (fst (render gs time run bass rid rlane c))
    \<and> total (trackStep c tr (Render gs time run bass rid rlane))
           = total tr + snd (render gs time run bass rid rlane c)"
proof (cases "gs = PLAYING")
  case True
  have "map fst (fst (trackGameplay (frameSpeed run bass) (frameDelta time c) rid rlane tr))
      = fst (gameplay (frameSpeed run bass) (frameDelta time c) rid rlane (buildings c))"
    using assms trackGameplay_buildings [of "frameSpeed run bass" "frameDelta time c" rid rlane tr]
    by simp
  moreover have "total (trackGameplay (frameSpeed run bass) (frameDelta time c) rid rlane tr)
      = total tr + snd (gameplay (frameSpeed run bass) (frameDelta time c) rid rlane (buildings c))"
    using assms trackGameplay_total [of "frameSpeed run bass" "frameDelta time c" rid rlane tr]
    by simp
  ultimately show ?thesis
    using True
    by (simp add: render_buildings_frame render_signals sortFarthestFirst_def sort_tracked
        total_def sum_sort Let_def)
next
  case False
  then show ?thesis
    using assms
    by (simp add: render_buildings_frame render_signals sortFarthestFirst_def sort_tracked
        total_def sum_sort Let_def)
qed

lemma render_countedOnce:
  assumes "\<forall>p\<in>set (fst tr) \<union> set (snd tr). countedOnce p"
  shows "\<forall>p\<in>set (fst (trackStep c tr (Render gs time run bass rid rlane)))
            \<union> set (snd (trackStep c tr (Render gs time run bass rid rlane))). countedOnce p"
  using assms
    trackGameplay_countedOnce [OF assms, of "frameSpeed run bass" "frameDelta time c" rid rlane]
  by (simp add: Let_def)


lemma targetStep_Hit:
  "fst (targetStep p (Hit r))
     = (if isLocked (fst p) \<or> r = MISS then fst p else lockTarget r (fst p))
   \<and> snd (targetStep p (Hit r)) = snd p"
  by (cases p) simp

lemma input_tracked:
  assumes "map fst (fst tr) = buildings c"
  shows "map fst (fst (trackStep c tr (Input gs t))) = buildings (fst (handleInput gs t c))
    \<and> total (trackStep c tr (Input gs t)) = total tr"
proof (cases "gs = PLAYING")
  case False
  then show ?thesis
    using assms by (simp add: handleInput_def)
next
  case True
  show ?thesis
  proof (cases "selectTarget (buildings c)")
    case None
    then show ?thesis
      using assms True by (simp add: handleInput_def)
  next
    case (Some i)
    obtain result points sh where j: "judge (beatErr t (beatDuration c)) = (result, points, sh)"
      by (cases "judge (beatErr t (beatDuration c))") auto
    have i: "i < length (buildings c)" and open_i: "\<not> isLocked (buildings c ! i)"
      using selectTarget_Some [OF Some] by simp_all
    have len: "i < length (fst tr)"
      using i assms [symmetric] by simp
    have at: "fst (fst tr ! i) = buildings c ! i"
      using len assms [symmetric] by simp
    have real: "buildings (fst (handleInput gs t c))
        = (if result \<noteq> MISS then (buildings c)[i := lockTarget result (buildings c ! i)]
           else buildings c)"
      using True Some j by (rule handleInput_buildings)
    have tracked: "trackStep c tr (Input gs t)
        = ((fst tr)[i := targetStep (fst tr ! i) (Hit result)], snd tr)"
      using True Some j by simp
    have "map fst ((fst tr)[i := targetStep (fst tr ! i) (Hit result)])
        = (buildings c)[i := fst (targetStep (fst tr ! i) (Hit result))]"
      using assms by (simp add: map_update)
    also have "\<dots> = (if result \<noteq> MISS then (buildings c)[i := lockTarget result (buildings c ! i)]
           else buildings c)"
      using at open_i by (simp add: targetStep_Hit)
    finally have bs: "map fst (fst (trackStep c tr (Input gs t)))
        = buildings (fst (handleInput gs t c))"
      unfolding tracked real by simp
    have "map snd ((fst tr)[i := targetStep (fst tr ! i) (Hit result)])
        = (map snd (fst tr))[i := map snd (fst tr) ! i]"
      using len by (simp add: map_update targetStep_Hit)
    then have "map snd ((fst tr)[i := targetStep (fst tr ! i) (Hit result)]) = map snd (fst tr)"
      by simp
    then have "total (trackStep c tr (Input gs t)) = total tr"
      unfolding tracked by (simp add: total_def)
    with bs show ?thesis
      by simp
  qed
qed

lemma input_countedOnce:
  assumes "\<forall>p\<in>set (fst tr) \<union> set (snd tr). countedOnce p"
    and "map fst (fst tr) = buildings c"
  shows "\<forall>p\<in>set (fst (trackStep c tr (Input gs t)))
            \<union> set (snd (trackStep c tr (Input gs t))). countedOnce p"
proof (cases "gs = PLAYING \<and> selectTarget (buildings c) \<noteq> None")
  case False
  then show ?thesis
    using assms(1) by (auto split: option.splits)
next
  case True
  then obtain i where Some: "selectTarget (buildings c) = Some i"
    by auto
  have "i < length (fst tr)"
    using selectTarget_Some [OF Some] assms(2) [symmetric] by simp
  then have "fst tr ! i \<in> set (fst tr)"
    by simp
  then have "countedOnce (targetStep (fst tr ! i) ev)" for ev
    using assms(1) by (simp add: targetStep_countedOnce)
  then show ?thesis
    using True Some assms(1)
    by (auto dest!: set_update_subset_insert [THEN subsetD])
qed

lemma trackStep_tied:
  assumes "map fst (fst tr) = buildings c"
    and "\<forall>p\<in>set (fst tr) \<union> set (snd tr). countedOnce p"
  shows "map fst (fst (trackStep c tr ev)) = buildings (canvasStep c ev)
    \<and> (\<forall>p\<in>set (fst (trackStep c tr ev)) \<union> set (snd (trackStep c tr ev)). countedOnce p)
    \<and> total (trackStep c tr ev) = total tr + eventSignals c ev"
proof (cases ev)
  case (Input gs t)
  then show ?thesis
    using input_tracked [OF assms(1), of gs t] input_countedOnce [OF assms(2,1), of gs t]
    by simp
next
  case (Render gs time run bass rid rlane)
  then show ?thesis
    using render_tracked [OF assms(1), of gs time run bass rid rlane]
      render_countedOnce [OF assms(2), of c gs time run bass rid rlane]
    by simp
qed

lemma trackRun_tied:
  "map fst (fst tr) = buildings c \<Longrightarrow>
   \<forall>p\<in>set (fst tr) \<union> set (snd tr). countedOnce p \<Longrightarrow>
   map fst (fst (trackRun c tr evs)) = buildings (canvasRun c evs)
   \<and> (\<forall>p\<in>set (fst (trackRun c tr evs)) \<union> set (snd (trackRun c tr evs)). countedOnce p)
   \<and> total (trackRun c tr evs) = total tr + canvasSignals c evs"
proof (induction evs arbitrary: c tr)
  case Nil
  then show ?case
    by (simp add: canvasRun_def)
next
  case (Cons ev evs)
  have step: "map fst (fst (trackStep c tr ev)) = buildings (canvasStep c ev)
    \<and> (\<forall>p\<in>set (fst (trackStep c tr ev)) \<union> set (snd (trackStep c tr ev)). countedOnce p)
    \<and> total (trackStep c tr ev) = total tr + eventSignals c ev"
    using Cons.prems by (rule trackStep_tied)
  then have "map fst (fst (trackRun (canvasStep c ev) (trackStep c tr ev) evs))
      = buildings (canvasRun (canvasStep c ev) evs)
    \<and> (\<forall>p\<in>set (fst (trackRun (canvasStep c ev) (trackStep c tr ev) evs))
           \<union> set (snd (trackRun (canvasStep c ev) (trackStep c tr ev) evs)). countedOnce p)
    \<and> total (trackRun (canvasStep c ev) (trackStep c tr ev) evs)
        = total (trackStep c tr ev) + canvasSignals (canvasStep c ev) evs"
    by (intro Cons.IH) simp_all
  then show ?case
    using step by (simp add: canvasRun_def)
qed


lemma render_signals_count:
  "snd (render gs time run bass rid rlane c) =
     (if gs = PLAYING
      then length (filter (\<lambda>b. \<not> isLocked b \<and> \<not> hasMissed b
              \<and> z_b b - frameSpeed run bass * frameDelta time c < BUILD_LINE_Z - 60)
            (buildings c))
      else 0)"
proof -
  have "snd (advanceBuilding s d b)
      \<longleftrightarrow> \<not> isLocked b \<and> \<not> hasMissed b \<and> z_b b - s * d < BUILD_LINE_Z - 60" for s d b
    by (simp add: advanceBuilding_def Let_def)
  then have "snd (gameplay s d rid rlane bs)
      = length (filter (\<lambda>b. \<not> isLocked b \<and> \<not> hasMissed b
              \<and> z_b b - s * d < BUILD_LINE_Z - 60) bs)" for s d bs
    by (simp add: gameplay_def Let_def filter_map o_def)
  then show ?thesis
    by (simp add: render_signals)
qed

text \<open>
  C4. Beside every building, count the calls of \<open>onPassiveMiss\<close> made for it. After any
  sequence of frames (of any speed and length) and inputs from the empty canvas, the
  buildings counted are the buildings of the array, in its order, and the calls the
  frames have made are the sum of the counts of the buildings in the array and of those
  removed from it. For every building, in the array or removed, the count is at most 1,
  it is 1 exactly if the building is flagged \<open>hasMissed\<close>, and it is 1 if the building is
  unlocked and below the build line less the slack of 60. No event adds to the count of
  a locked or a flagged building. In a frame of the PLAYING state the calls made are one
  for each building that is unlocked, unflagged and moved below that depth by the frame,
  and outside it none.
\<close>

theorem passive_miss_exactly_once:
  "map fst (fst (trackRun newCanvas ([], []) evs)) = buildings (canvasRun newCanvas evs)
   \<and> canvasSignals newCanvas evs
       = sum_list (map snd (fst (trackRun newCanvas ([], []) evs)))
         + sum_list (map snd (snd (trackRun newCanvas ([], []) evs)))
   \<and> (\<forall>p\<in>set (fst (trackRun newCanvas ([], []) evs))
            \<union> set (snd (trackRun newCanvas ([], []) evs)).
          snd p \<le> 1
          \<and> (snd p = 1 \<longleftrightarrow> hasMissed (fst p))
          \<and> (\<not> isLocked (fst p) \<and> z_b (fst p) < BUILD_LINE_Z - 60 \<longrightarrow> snd p = 1))
   \<and> (isLocked (fst q) \<or> hasMissed (fst q) \<longrightarrow> snd (targetStep q ev) = snd q)
   \<and> snd (render gs time run bassEnergy rid rlane c)
       = (if gs = PLAYING
          then length (filter (\<lambda>b. \<not> isLocked b \<and> \<not> hasMissed b
                  \<and> z_b b - frameSpeed run bassEnergy * frameDelta time c < BUILD_LINE_Z - 60)
                (buildings c))
          else 0)"
proof -
  have tied: "map fst (fst (trackRun newCanvas ([], []) evs)) = buildings (canvasRun newCanvas evs)
   \<and> (\<forall>p\<in>set (fst (trackRun newCanvas ([], []) evs))
          \<union> set (snd (trackRun newCanvas ([], []) evs)). countedOnce p)
   \<and> total (trackRun newCanvas ([], []) evs) = total ([], []) + canvasSignals newCanvas evs"
    by (rule trackRun_tied) (simp_all add: newCanvas_def)
  have counts: "snd p \<le> 1 \<and> (snd p = 1 \<longleftrightarrow> hasMissed (fst p))
      \<and> (\<not> isLocked (fst p) \<and> z_b (fst p) < BUILD_LINE_Z - 60 \<longrightarrow> snd p = 1)"
    if "countedOnce p" for p
    using that by (auto simp add: countedOnce_def split: if_splits)
  have sums: "canvasSignals newCanvas evs
       = sum_list (map snd (fst (trackRun newCanvas ([], []) evs)))
         + sum_list (map snd (snd (trackRun newCanvas ([], []) evs)))"
    using tied by (simp add: total_def)
  show ?thesis
    using tied sums counts targetStep_no_second [of q ev]
      render_signals_count [of gs time run bassEnergy rid rlane c]
    by blast
qed

theorem passive_miss_exactly_once_witness:
  "canvasSignals newCanvas
      [Render PLAYING 1000 False 0 0 0, Render PLAYING 11000 False 0 0 0,
       Render PLAYING 11016 False 0 0 0] = 1
   \<and> map (\<lambda>b. (z_b b, hasMissed b)) (buildings (canvasRun newCanvas
      [Render PLAYING 1000 False 0 0 0, Render PLAYING 11000 False 0 0 0]))
       = [(300, False), (- 100, True)]
   \<and> map snd (fst (trackRun newCanvas ([], [])
      [Render PLAYING 1000 False 0 0 0, Render PLAYING 11000 False 0 0 0])) = [0, 1]"
proof -
  have a: "map (\<lambda>b. (z_b b, hasMissed b)) (buildings (canvasRun newCanvas
      [Render PLAYING 1000 False 0 0 0, Render PLAYING 11000 False 0 0 0]))
       = [(300, False), (- 100, True)]"
    by (simp add: canvasRun_def render_canvas newCanvas_def gameplay_def sortFarthestFirst_def
        advanceBuilding_def spawn_def BUILD_LINE_Z_def Let_def)
  have b: "canvasSignals newCanvas
      [Render PLAYING 1000 False 0 0 0, Render PLAYING 11000 False 0 0 0,
       Render PLAYING 11016 False 0 0 0] = 1"
    by (simp add: render_canvas render_signals_count frameSpeed_def frameDelta_def newCanvas_def
        gameplay_def sortFarthestFirst_def advanceBuilding_def spawn_def BUILD_LINE_Z_def
        Let_def)
  have c: "map snd (fst (trackRun newCanvas ([], [])
      [Render PLAYING 1000 False 0 0 0, Render PLAYING 11000 False 0 0 0])) = [0, 1]"
    by (simp add: render_canvas trackGameplay_def frameSpeed_def frameDelta_def newCanvas_def
        gameplay_def sortFarthestFirst_def advanceBuilding_def spawn_def BUILD_LINE_Z_def
        Let_def)
  show ?thesis
    using passive_miss_exactly_once
      [of "[Render PLAYING 1000 False 0 0 0, Render PLAYING 11000 False 0 0 0]"] a b c
    by simp
qed

section \<open>Starting the game\<close>

lemma schedulerLoop_ctx: "ctx (schedulerLoop limit e) = ctx e"
proof (induction limit e rule: schedulerLoop.induct)
  case (1 limit e)
  show ?case
  proof (cases "nextNoteTime e < limit")
    case True
    then have "ctx (schedulerLoop limit e)
        = ctx (nextNote (scheduleNote (current16thNote e) (nextNoteTime e) e))"
      using "1.IH" by (simp add: schedulerLoop.simps [of limit e])
    then show ?thesis
      by (simp add: nextNote_def scheduleNote_def Let_def)
  next
    case False
    then show ?thesis by (simp add: schedulerLoop.simps [of limit e])
  qed
qed

lemma scheduler_ctx: "ctx (scheduler e) = ctx e"
  by (simp add: scheduler_def Let_def schedulerLoop_ctx)


lemma start_Resolved_running:
  "snd (start d e) = Resolved \<Longrightarrow> isRunning (fst (start d e))"
  by (cases "ctx e"; cases "create d"; cases "resume d"; cases "the (ctx e)")
    (simp_all add: start_def init_def isRunning_def scheduler_ctx Let_def)

lemma start_failed:
  assumes "(ctx e = None \<and> create d = CreateThrows)
      \<or> ((ctx e = Some suspended \<or> (ctx e = None \<and> create d = CreateSuspended))
          \<and> resume d \<noteq> ResumeResolves)"
  shows "snd (start d e) \<noteq> Resolved \<and> \<not> isRunning (fst (start d e))"
  using assms
  by (cases "resume d") (auto simp add: start_def init_def isRunning_def Let_def)


text \<open>
  C3. The start action with an engine present. When the audio context cannot be created
  (there is none yet and the constructor throws) or cannot be resumed (it is suspended,
  or is created suspended, and \<open>resume\<close> rejects or stays pending), the game state
  stays what it was and the engine is not running. When the start action takes the state
  from MENU or GAMEOVER to PLAYING, the engine is running.
\<close>

theorem playing_only_after_audio_started:
  assumes "audioEngine a = Some e"
  shows "((ctx e = None \<and> create d = CreateThrows)
           \<or> ((ctx e = Some suspended \<or> (ctx e = None \<and> create d = CreateSuspended))
               \<and> resume d \<noteq> ResumeResolves)
          \<longrightarrow> gameState (startGame d a) = gameState a
            \<and> (\<exists>e'. audioEngine (startGame d a) = Some e' \<and> \<not> isRunning e'))
    \<and> (gameState a \<noteq> PLAYING \<and> gameState (startGame d a) = PLAYING
          \<longrightarrow> (\<exists>e'. audioEngine (startGame d a) = Some e' \<and> isRunning e'))"
proof -
  obtain e' out where st: "start d e = (e', out)"
    by (cases "start d e") auto
  have ok: "out = Resolved \<Longrightarrow> isRunning e'"
    using start_Resolved_running [of d e] st by simp
  have bad: "out \<noteq> Resolved \<and> \<not> isRunning e'"
    if "(ctx e = None \<and> create d = CreateThrows)
      \<or> ((ctx e = Some suspended \<or> (ctx e = None \<and> create d = CreateSuspended))
          \<and> resume d \<noteq> ResumeResolves)"
    using start_failed [OF that] st by simp
  show ?thesis
    using assms st ok bad
    by (cases out) (auto simp add: startGame_def Let_def)
qed


theorem playing_only_after_audio_started_witness:
  "audioEngine newApp = Some newEngine
   \<and> ctx newEngine = None
   \<and> gameState (startGame \<lparr>create = CreateThrows, resume = ResumeResolves\<rparr> newApp) = MENU
   \<and> gameState (startGame \<lparr>create = CreateSuspended, resume = ResumePending\<rparr> newApp) = MENU
   \<and> gameState (startGame goodDevice newApp) = PLAYING
   \<and> (\<exists>e'. audioEngine (startGame goodDevice newApp) = Some e' \<and> isRunning e')"
proof -
  have a: "audioEngine newApp = Some newEngine"
    by (simp add: newApp_def)
  have b: "ctx newEngine = None"
    by (simp add: newEngine_def)
  have c: "gameState newApp = MENU"
    by (simp add: newApp_def)
  have d: "snd (start goodDevice newEngine) = Resolved"
    by (simp add: start_def init_def goodDevice_def newEngine_def)
  have e: "gameState (startGame goodDevice newApp) = PLAYING"
    using a d by (simp add: startGame_def Let_def split_beta)
  show ?thesis
    using playing_only_after_audio_started [OF a, of "\<lparr>create = CreateThrows, resume = ResumeResolves\<rparr>"]
      playing_only_after_audio_started [OF a, of "\<lparr>create = CreateSuspended, resume = ResumePending\<rparr>"]
      playing_only_after_audio_started [OF a, of goodDevice]
      a b c e
    by simp
qed


section \<open>The sequencer\<close>


























end
